theory Spec2Isabelle
  imports Main "HOL-Library.Word"
begin

section \<open>The call component of example.tsx as an event-driven state machine\<close>

text \<open>
  The source is one React component, \<^verbatim>\<open>App\<close>. Its mutable state is five
  \<^verbatim>\<open>useState\<close> cells (\<^verbatim>\<open>roomId\<close>, \<^verbatim>\<open>joined\<close>, \<^verbatim>\<open>status\<close>,
  \<^verbatim>\<open>localStream\<close>, \<^verbatim>\<open>remoteStream\<close>) and two \<^verbatim>\<open>useRef\<close> cells
  (\<^verbatim>\<open>socketRef\<close>, \<^verbatim>\<open>pcRef\<close>). The component reacts to button presses, to messages
  of the signaling socket, to callbacks of the peer connection and to the settlement of
  the promises its \<^verbatim>\<open>async\<close> handlers await.

  The socket and the media engine are libraries, not code of the component. The model
  records what the component asks of them (the messages it emits, the methods it calls
  on each peer connection, in order) and takes what they answer as input: whether an
  awaited promise resolves or rejects is part of the event that settles it.
\<close>

subsection \<open>Data\<close>

type_synonym sdp = string
type_synonym candidate = string
type_synonym track = nat

text \<open>A \<^verbatim>\<open>MediaStream\<close> is used through \<^verbatim>\<open>getTracks()\<close> only.\<close>

type_synonym stream = "track list"

text \<open>
  The participant count of a \<^verbatim>\<open>joined\<close> message: a non-negative integer below
  \<open>2^53\<close>. This is the range in which a JavaScript number holds every integer
  exactly, so that \<^verbatim>\<open>Number::toString\<close> prints the integer's own decimal numeral.
  Any other number is printed from its floating-point value and is not a value of
  this type.
\<close>

type_synonym count = "53 word"

text \<open>
  A payload handed to \<^verbatim>\<open>new RTCSessionDescription(..)\<close> or
  \<^verbatim>\<open>new RTCIceCandidate(..)\<close>: \<open>Malformed\<close> is a payload on which the constructor
  throws, \<open>Wellformed\<close> one from which it builds an object (which the engine may still
  reject later, by rejecting the promise).
\<close>

datatype 'a payload = Malformed | Wellformed 'a

text \<open>The inbound messages for which \<^verbatim>\<open>connectSocket\<close> registers a handler.\<close>

datatype signal =
    Connect
  | Joined count
  | PeerJoined
  | Ready
  | Offer "sdp payload"
  | Answer "sdp payload"
  | IceCandidate "candidate payload"
  | PeerLeft

text \<open>The messages the component emits, with the room identifier they carry.\<close>

datatype out_msg =
    Join string
  | Leave string
  | OfferOut string sdp
  | AnswerOut string sdp
  | IceOut string candidate

text \<open>The methods the component calls on an \<^verbatim>\<open>RTCPeerConnection\<close>.
  \<open>StopSenderTracks\<close> stands for
  \<^verbatim>\<open>getSenders().forEach((sender) => sender.track?.stop())\<close>.\<close>

datatype pc_call =
    AddTrack track
  | CreateOffer
  | CreateAnswer
  | SetLocalDescription sdp
  | SetRemoteDescription sdp
  | AddIceCandidate candidate
  | StopSenderTracks
  | Close

text \<open>
  The variables of a render that a closure created in that render reads:
  \<^verbatim>\<open>ensurePeer\<close> reads \<^verbatim>\<open>roomId\<close> and \<^verbatim>\<open>localStream\<close>, \<^verbatim>\<open>endCall\<close> reads
  \<^verbatim>\<open>roomId\<close>. The handlers registered by \<^verbatim>\<open>connectSocket\<close> keep the closure of the
  render in which they were registered, and so does every peer connection created by
  them (its \<^verbatim>\<open>onicecandidate\<close> emits that \<^verbatim>\<open>roomId\<close>).
\<close>

record closure =
  c_roomId :: string
  c_localStream :: "stream option"

text \<open>
  An \<^verbatim>\<open>async\<close> handler suspended at an \<^verbatim>\<open>await\<close>: which handler, at which
  \<^verbatim>\<open>await\<close>, with the local variables it still needs (the captured \<^verbatim>\<open>roomId\<close>, the
  connection \<^verbatim>\<open>pc\<close> it obtained from \<^verbatim>\<open>ensurePeer\<close>, the description it created).
\<close>

datatype task =
    ReadyCreateOffer string nat
  | ReadySetLocal string nat sdp
  | OfferSetRemote string nat
  | OfferCreateAnswer string nat
  | OfferSetLocal string nat sdp
  | AnswerSetRemote nat
  | IceAdd nat

text \<open>How an awaited promise settles. The value of a promise of \<^verbatim>\<open>void\<close> is not read.\<close>

datatype outcome = Resolved sdp | Rejected

text \<open>
  The state. Peer connections are objects on a heap: \<open>pcs\<close> lists every connection
  ever created (with the closure of its callbacks), a connection is named by its index,
  and \<open>pcRef\<close> holds the index of the current one. \<open>engineLog\<close> is the chronological
  list of method calls on connections, \<open>outbox\<close> the chronological list of messages
  emitted on the socket, \<open>console\<close> the warnings logged.
\<close>

record app =
  roomId :: string
  joined :: bool
  status :: string
  localStream :: "stream option"
  remoteStream :: "stream option"
  socketRef :: "closure option"
  pcRef :: "nat option"
  pcs :: "closure list"
  engineLog :: "(nat \<times> pc_call) list"
  outbox :: "out_msg list"
  tasks :: "task list"
  console :: "string list"
  stoppedTracks :: "track list"

datatype event =
    GotLocalStream stream
  | ChangeRoomId string
  | PressButton
  | Unmount
  | Recv signal
  | Settle nat outcome
  | PcIceCandidate nat "candidate option"
  | PcTrack nat "stream option"

subsection \<open>Operations\<close>

definition initial :: app where
  "initial = \<lparr> roomId = ''test-room'', joined = False, status = ''idle'',
      localStream = None, remoteStream = None, socketRef = None, pcRef = None,
      pcs = [], engineLog = [], outbox = [], tasks = [], console = [],
      stoppedTracks = [] \<rparr>"

text \<open>\<^verbatim>\<open>socketRef.current?.emit(..)\<close>: nothing is sent when there is no socket.\<close>

definition emit :: "out_msg \<Rightarrow> app \<Rightarrow> app" where
  "emit m s = (case socketRef s of
                 None \<Rightarrow> s
               | Some _ \<Rightarrow> s\<lparr>outbox := outbox s @ [m]\<rparr>)"

definition call :: "nat \<Rightarrow> pc_call \<Rightarrow> app \<Rightarrow> app" where
  "call i c s = s\<lparr>engineLog := engineLog s @ [(i, c)]\<rparr>"

definition await :: "task \<Rightarrow> app \<Rightarrow> app" where
  "await t s = s\<lparr>tasks := tasks s @ [t]\<rparr>"

definition warn :: "app \<Rightarrow> app" where
  "warn s = s\<lparr>console := console s @ [''Failed to add ICE'']\<rparr>"

text \<open>\<^verbatim>\<open>stream.getTracks().forEach((t) => pc.addTrack(t, stream))\<close>\<close>

definition addTracks :: "nat \<Rightarrow> stream \<Rightarrow> app \<Rightarrow> app" where
  "addTracks i st s = s\<lparr>engineLog := engineLog s @ map (\<lambda>t. (i, AddTrack t)) st\<rparr>"

text \<open>\<^verbatim>\<open>ensurePeer\<close> (lines 83-108), in the closure \<open>cl\<close>.\<close>

definition ensurePeer :: "closure \<Rightarrow> app \<Rightarrow> nat \<times> app" where
  "ensurePeer cl s =
     (case pcRef s of
        Some i \<Rightarrow> (i, s)
      | None \<Rightarrow>
          (let i = length (pcs s);
               s1 = s\<lparr>pcs := pcs s @ [cl]\<rparr>;
               s2 = (case c_localStream cl of
                       None \<Rightarrow> s1
                     | Some st \<Rightarrow> addTracks i st s1)
           in (i, s2\<lparr>pcRef := Some i\<rparr>)))"

text \<open>\<^verbatim>\<open>endCall\<close> (lines 165-177); \<open>rid\<close> is the \<^verbatim>\<open>roomId\<close> of its closure.\<close>

definition endCall :: "string \<Rightarrow> app \<Rightarrow> app" where
  "endCall rid s =
     (let s1 = (if socketRef s \<noteq> None \<and> rid \<noteq> [] then emit (Leave rid) s else s);
          s2 = (case pcRef s1 of
                  None \<Rightarrow> s1
                | Some i \<Rightarrow> (call i Close (call i StopSenderTracks s1))\<lparr>pcRef := None\<rparr>)
      in s2\<lparr>remoteStream := None, joined := False, status := ''idle''\<rparr>)"

text \<open>The closure of the current render.\<close>

definition current :: "app \<Rightarrow> closure" where
  "current s = \<lparr> c_roomId = roomId s, c_localStream = localStream s \<rparr>"

text \<open>\<^verbatim>\<open>connectSocket\<close> (lines 110-156): the socket is created, and its handlers are
  registered, only when there is none.\<close>

definition connectSocket :: "app \<Rightarrow> app" where
  "connectSocket s = (case socketRef s of
                        None \<Rightarrow> s\<lparr>socketRef := Some (current s)\<rparr>
                      | Some _ \<Rightarrow> s)"

text \<open>\<^verbatim>\<open>joinRoom\<close> (lines 158-163).\<close>

definition joinRoom :: "app \<Rightarrow> app" where
  "joinRoom s = (case localStream s of
                   None \<Rightarrow> s
                 | Some _ \<Rightarrow> (emit (Join (roomId s)) (connectSocket s))\<lparr>joined := True\<rparr>)"

text \<open>\<^verbatim>\<open>cleanup\<close> (lines 179-185), in the closure \<open>cl\<close>.\<close>

definition cleanup :: "closure \<Rightarrow> app \<Rightarrow> app" where
  "cleanup cl s =
     (let s1 = endCall (c_roomId cl) s;
          s2 = s1\<lparr>socketRef := None\<rparr>;
          s3 = (case c_localStream cl of
                  None \<Rightarrow> s2
                | Some st \<Rightarrow> s2\<lparr>stoppedTracks := stoppedTracks s2 @ st\<rparr>)
      in s3\<lparr>localStream := None\<rparr>)"

text \<open>The decimal numeral of a natural number, without leading zeros.\<close>

fun decimal :: "nat \<Rightarrow> string" where
  "decimal n = (if n < 10 then [char_of (48 + n)]
                else decimal (n div 10) @ [char_of (48 + n mod 10)])"

declare decimal.simps [simp del]

text \<open>
  \<^verbatim>\<open>`joined room (${count})`\<close>: a template literal renders a number with
  \<^verbatim>\<open>Number::toString\<close>. For a \<open>count\<close> that is the decimal numeral of its value.
\<close>

definition number_toString :: "count \<Rightarrow> string" where
  "number_toString n = decimal (unat n)"

text \<open>
  The handlers of lines 115-154, each up to its first \<^verbatim>\<open>await\<close>; \<open>cl\<close> is the closure
  in which \<^verbatim>\<open>connectSocket\<close> registered them. Message payloads are objects, as the
  relay sends them; a payload whose constructor throws ends the \<^verbatim>\<open>offer\<close> and
  \<^verbatim>\<open>answer\<close> handlers after \<^verbatim>\<open>ensurePeer\<close> (nothing catches it), and is caught and
  logged in the \<^verbatim>\<open>ice-candidate\<close> handler.
\<close>

fun on_signal :: "closure \<Rightarrow> signal \<Rightarrow> app \<Rightarrow> app" where
  "on_signal cl Connect s = s\<lparr>status := ''socket connected''\<rparr>"
| "on_signal cl (Joined n) s =
     s\<lparr>status := ''joined room ('' @ number_toString n @ '')''\<rparr>"
| "on_signal cl PeerJoined s = s\<lparr>status := ''peer joined, waiting for ready''\<rparr>"
| "on_signal cl Ready s =
     (case ensurePeer cl s of (i, s1) \<Rightarrow>
        await (ReadyCreateOffer (c_roomId cl) i) (call i CreateOffer s1))"
| "on_signal cl (Offer p) s =
     (case ensurePeer cl s of (i, s1) \<Rightarrow>
        (case p of
           Malformed \<Rightarrow> s1
         | Wellformed d \<Rightarrow>
             await (OfferSetRemote (c_roomId cl) i) (call i (SetRemoteDescription d) s1)))"
| "on_signal cl (Answer p) s =
     (case ensurePeer cl s of (i, s1) \<Rightarrow>
        (case p of
           Malformed \<Rightarrow> s1
         | Wellformed d \<Rightarrow> await (AnswerSetRemote i) (call i (SetRemoteDescription d) s1)))"
| "on_signal cl (IceCandidate p) s =
     (case ensurePeer cl s of (i, s1) \<Rightarrow>
        (case p of
           Malformed \<Rightarrow> warn s1
         | Wellformed c \<Rightarrow> await (IceAdd i) (call i (AddIceCandidate c) s1)))"
| "on_signal cl PeerLeft s = endCall (c_roomId cl) (s\<lparr>status := ''peer left''\<rparr>)"

text \<open>
  The rest of a suspended handler, from the settled \<^verbatim>\<open>await\<close> to the next one or to
  its end. A rejection ends the \<^verbatim>\<open>ready\<close>, \<^verbatim>\<open>offer\<close> and \<^verbatim>\<open>answer\<close> handlers (they
  have no \<^verbatim>\<open>catch\<close>); the \<^verbatim>\<open>ice-candidate\<close> handler catches it and logs a warning.
\<close>

fun settle :: "task \<Rightarrow> outcome \<Rightarrow> app \<Rightarrow> app" where
  "settle (ReadyCreateOffer rid i) (Resolved offer) s =
     await (ReadySetLocal rid i offer) (call i (SetLocalDescription offer) s)"
| "settle (ReadySetLocal rid i offer) (Resolved _) s =
     (emit (OfferOut rid offer) s)\<lparr>status := ''sent offer''\<rparr>"
| "settle (OfferSetRemote rid i) (Resolved _) s =
     await (OfferCreateAnswer rid i) (call i CreateAnswer s)"
| "settle (OfferCreateAnswer rid i) (Resolved answer) s =
     await (OfferSetLocal rid i answer) (call i (SetLocalDescription answer) s)"
| "settle (OfferSetLocal rid i answer) (Resolved _) s =
     (emit (AnswerOut rid answer) s)\<lparr>status := ''answered offer''\<rparr>"
| "settle (AnswerSetRemote i) (Resolved _) s = s\<lparr>status := ''connected (answer set)''\<rparr>"
| "settle (IceAdd i) (Resolved _) s = s"
| "settle (IceAdd i) Rejected s = warn s"
| "settle _ Rejected s = s"

text \<open>The closure of the first render, which the \<^verbatim>\<open>useEffect(.., [])\<close> of lines
  78-81 keeps for \<^verbatim>\<open>cleanup\<close>.\<close>

definition mounted :: closure where
  "mounted = \<lparr> c_roomId = ''test-room'', c_localStream = None \<rparr>"

text \<open>
  One event.
  \<^item> \<open>GotLocalStream\<close>: \<^verbatim>\<open>getLocalStream\<close> obtained a stream; \<^verbatim>\<open>setLocalStream\<close>,
    then the effect of lines 188-194.
  \<^item> \<open>ChangeRoomId\<close>: the text input.
  \<^item> \<open>PressButton\<close>: \<^verbatim>\<open>onPress={joined ? endCall : joinRoom}\<close>, of the current render.
  \<^item> \<open>Unmount\<close>: \<^verbatim>\<open>cleanup\<close>.
  \<^item> \<open>Recv\<close>: a message on the socket; without a socket there is no handler.
  \<^item> \<open>Settle n\<close>: the \<open>n\<close>-th pending promise settles.
  \<^item> \<open>PcIceCandidate\<close>, \<open>PcTrack\<close>: the callbacks of lines 87-99 of connection \<open>i\<close>.
\<close>

fun step :: "event \<Rightarrow> app \<Rightarrow> app" where
  "step (GotLocalStream st) s =
     (let s1 = s\<lparr>localStream := Some st\<rparr>
      in case pcRef s1 of None \<Rightarrow> s1 | Some i \<Rightarrow> addTracks i st s1)"
| "step (ChangeRoomId r) s = s\<lparr>roomId := r\<rparr>"
| "step PressButton s = (if joined s then endCall (roomId s) s else joinRoom s)"
| "step Unmount s = cleanup mounted s"
| "step (Recv m) s = (case socketRef s of None \<Rightarrow> s | Some cl \<Rightarrow> on_signal cl m s)"
| "step (Settle n oc) s =
     (if n < length (tasks s)
      then settle (tasks s ! n) oc (s\<lparr>tasks := take n (tasks s) @ drop (Suc n) (tasks s)\<rparr>)
      else s)"
| "step (PcIceCandidate i c) s =
     (if i < length (pcs s)
      then (case c of None \<Rightarrow> s | Some c' \<Rightarrow> emit (IceOut (c_roomId (pcs s ! i)) c') s)
      else s)"
| "step (PcTrack i st) s = (if i < length (pcs s) then s\<lparr>remoteStream := st\<rparr> else s)"

fun run :: "event list \<Rightarrow> app \<Rightarrow> app" where
  "run [] s = s"
| "run (e # es) s = run es (step e s)"

subsection \<open>Observations\<close>

text \<open>The connection a suspended handler holds.\<close>

fun task_pc :: "task \<Rightarrow> nat" where
  "task_pc (ReadyCreateOffer rid i) = i"
| "task_pc (ReadySetLocal rid i d) = i"
| "task_pc (OfferSetRemote rid i) = i"
| "task_pc (OfferCreateAnswer rid i) = i"
| "task_pc (OfferSetLocal rid i d) = i"
| "task_pc (AnswerSetRemote i) = i"
| "task_pc (IceAdd i) = i"

definition closed :: "app \<Rightarrow> nat \<Rightarrow> bool" where
  "closed s i = ((i, Close) \<in> set (engineLog s))"

text \<open>The connections created and not closed.\<close>

definition open_pcs :: "app \<Rightarrow> nat list" where
  "open_pcs s = filter (\<lambda>i. \<not> closed s i) [0..<length (pcs s)]"

text \<open>The calls made on connection \<open>i\<close>, in order.\<close>

definition calls_on :: "app \<Rightarrow> nat \<Rightarrow> pc_call list" where
  "calls_on s i = map snd (filter (\<lambda>e. fst e = i) (engineLog s))"

text \<open>The number a decimal numeral denotes.\<close>

definition numeral_value :: "string \<Rightarrow> nat" where
  "numeral_value cs = foldl (\<lambda>a c. 10 * a + (of_char c - 48)) 0 cs"

text \<open>The candidates handed to \<^verbatim>\<open>addIceCandidate\<close>, on any connection, in order.\<close>

definition ice_applied :: "app \<Rightarrow> candidate list" where
  "ice_applied s =
     concat (map (\<lambda>e. case snd e of AddIceCandidate c \<Rightarrow> [c] | _ \<Rightarrow> []) (engineLog s))"

text \<open>The candidates that the \<^verbatim>\<open>ice-candidate\<close> handler receives and constructs
  during a run of events from \<open>s\<close>, in order of arrival.\<close>

fun ice_received :: "event list \<Rightarrow> app \<Rightarrow> candidate list" where
  "ice_received [] s = []"
| "ice_received (e # es) s =
     (case e of
        Recv (IceCandidate (Wellformed c)) \<Rightarrow> (if socketRef s \<noteq> None then [c] else [])
      | _ \<Rightarrow> [])
     @ ice_received es (step e s)"

text \<open>
  The invariant of the connection heap: \<open>pcRef\<close> and every suspended handler name a
  connection that exists, and every connection other than the current one has been
  closed.
\<close>

definition heap_inv :: "app \<Rightarrow> bool" where
  "heap_inv s \<longleftrightarrow>
     (case pcRef s of None \<Rightarrow> True | Some i \<Rightarrow> i < length (pcs s))
     \<and> list_all (\<lambda>t. task_pc t < length (pcs s)) (tasks s)
     \<and> list_all (\<lambda>i. pcRef s = Some i \<or> closed s i) [0..<length (pcs s)]"

text \<open>The messages whose handler starts with \<^verbatim>\<open>ensurePeer()\<close>.\<close>

fun needs_peer :: "signal \<Rightarrow> bool" where
  "needs_peer Ready = True"
| "needs_peer (Offer p) = True"
| "needs_peer (Answer p) = True"
| "needs_peer (IceCandidate p) = True"
| "needs_peer _ = False"

text \<open>
  Counting offers and answers: the messages of each kind in the outbox, the suspended
  \<^verbatim>\<open>ready\<close> and \<^verbatim>\<open>offer\<close> handlers, and the \<^verbatim>\<open>ready\<close> and (well-formed)
  \<^verbatim>\<open>offer\<close> messages that reach a handler during a run of events from \<open>s\<close>.
\<close>

fun is_offer_out :: "out_msg \<Rightarrow> bool" where
  "is_offer_out (OfferOut r d) = True"
| "is_offer_out _ = False"

fun is_answer_out :: "out_msg \<Rightarrow> bool" where
  "is_answer_out (AnswerOut r d) = True"
| "is_answer_out _ = False"

fun ready_task :: "task \<Rightarrow> bool" where
  "ready_task (ReadyCreateOffer rid i) = True"
| "ready_task (ReadySetLocal rid i d) = True"
| "ready_task _ = False"

fun offer_task :: "task \<Rightarrow> bool" where
  "offer_task (OfferSetRemote rid i) = True"
| "offer_task (OfferCreateAnswer rid i) = True"
| "offer_task (OfferSetLocal rid i d) = True"
| "offer_task _ = False"

definition offers_sent :: "app \<Rightarrow> nat" where
  "offers_sent s = length (filter is_offer_out (outbox s))"

definition answers_sent :: "app \<Rightarrow> nat" where
  "answers_sent s = length (filter is_answer_out (outbox s))"

definition ready_pending :: "app \<Rightarrow> nat" where
  "ready_pending s = length (filter ready_task (tasks s))"

definition offer_pending :: "app \<Rightarrow> nat" where
  "offer_pending s = length (filter offer_task (tasks s))"

fun ready_delivered :: "event list \<Rightarrow> app \<Rightarrow> nat" where
  "ready_delivered [] s = 0"
| "ready_delivered (e # es) s =
     (case e of
        Recv Ready \<Rightarrow> (if socketRef s \<noteq> None then 1 else 0)
      | _ \<Rightarrow> 0)
     + ready_delivered es (step e s)"

fun offers_delivered :: "event list \<Rightarrow> app \<Rightarrow> nat" where
  "offers_delivered [] s = 0"
| "offers_delivered (e # es) s =
     (case e of
        Recv (Offer (Wellformed d)) \<Rightarrow> (if socketRef s \<noteq> None then 1 else 0)
      | _ \<Rightarrow> 0)
     + offers_delivered es (step e s)"

section \<open>Properties\<close>

subsection \<open>The heap invariant\<close>

text \<open>
  A connection is created by \<^verbatim>\<open>ensurePeer\<close> only, and only when \<open>pcRef\<close> is
  empty; \<open>pcRef\<close> is emptied by \<^verbatim>\<open>endCall\<close> only, after it has closed the
  connection. So \<open>heap_inv\<close> holds initially and every event preserves it.
\<close>

lemma heap_inv_iff:
  "heap_inv s \<longleftrightarrow>
     (\<forall>i. pcRef s = Some i \<longrightarrow> i < length (pcs s))
     \<and> (\<forall>t \<in> set (tasks s). task_pc t < length (pcs s))
     \<and> (\<forall>i < length (pcs s). pcRef s = Some i \<or> (i, Close) \<in> set (engineLog s))"
  by (auto simp add: heap_inv_def closed_def list_all_iff split: option.splits)

lemma heap_inv_initial: "heap_inv initial"
  by (simp add: heap_inv_iff initial_def)

lemma heap_inv_emit [simp]: "heap_inv (emit m s) = heap_inv s"
  by (simp add: heap_inv_iff emit_def split: option.splits)

lemma heap_inv_warn [simp]: "heap_inv (warn s) = heap_inv s"
  by (simp add: heap_inv_iff warn_def)

lemma heap_inv_call: "heap_inv s \<Longrightarrow> heap_inv (call i c s)"
  by (auto simp add: heap_inv_iff call_def)

lemma heap_inv_addTracks: "heap_inv s \<Longrightarrow> heap_inv (addTracks i st s)"
  by (auto simp add: heap_inv_iff addTracks_def)

lemma heap_inv_await:
  "heap_inv s \<Longrightarrow> task_pc t < length (pcs s) \<Longrightarrow> heap_inv (await t s)"
  by (auto simp add: heap_inv_iff await_def)

lemma pcs_call [simp]: "pcs (call i c s) = pcs s"
  by (simp add: call_def)

lemma pcs_emit [simp]: "pcs (emit m s) = pcs s"
  by (simp add: emit_def split: option.splits)

lemma heap_inv_ensurePeer:
  assumes "heap_inv s" and "ensurePeer cl s = (i, s1)"
  shows "heap_inv s1 \<and> pcRef s1 = Some i \<and> i < length (pcs s1)"
proof (cases "pcRef s")
  case None
  with assms show ?thesis
    by (auto simp add: heap_inv_iff ensurePeer_def addTracks_def Let_def less_Suc_eq
             split: option.splits)
next
  case (Some j)
  with assms show ?thesis
    by (auto simp add: heap_inv_iff ensurePeer_def)
qed

lemma heap_inv_endCall: "heap_inv s \<Longrightarrow> heap_inv (endCall rid s)"
  by (auto simp add: heap_inv_iff endCall_def emit_def call_def Let_def split: option.splits)

lemma heap_inv_status [simp]: "heap_inv (s\<lparr>status := x\<rparr>) = heap_inv s"
  by (simp add: heap_inv_iff)

lemma heap_inv_on_signal: "heap_inv s \<Longrightarrow> heap_inv (on_signal cl m s)"
proof (cases m)
  case Ready
  assume h: "heap_inv s"
  obtain i s1 where e: "ensurePeer cl s = (i, s1)" by (cases "ensurePeer cl s")
  from heap_inv_ensurePeer [OF h e] Ready e show ?thesis
    by (simp add: heap_inv_await heap_inv_call)
next
  case (Offer p)
  assume h: "heap_inv s"
  obtain i s1 where e: "ensurePeer cl s = (i, s1)" by (cases "ensurePeer cl s")
  from heap_inv_ensurePeer [OF h e] Offer e show ?thesis
    by (cases p) (simp_all add: heap_inv_await heap_inv_call)
next
  case (Answer p)
  assume h: "heap_inv s"
  obtain i s1 where e: "ensurePeer cl s = (i, s1)" by (cases "ensurePeer cl s")
  from heap_inv_ensurePeer [OF h e] Answer e show ?thesis
    by (cases p) (simp_all add: heap_inv_await heap_inv_call)
next
  case (IceCandidate p)
  assume h: "heap_inv s"
  obtain i s1 where e: "ensurePeer cl s = (i, s1)" by (cases "ensurePeer cl s")
  from heap_inv_ensurePeer [OF h e] IceCandidate e show ?thesis
    by (cases p) (simp_all add: heap_inv_await heap_inv_call)
next
  case PeerLeft
  assume "heap_inv s"
  then have "heap_inv (s\<lparr>status := ''peer left''\<rparr>)" by simp
  with PeerLeft show ?thesis by (simp add: heap_inv_endCall)
qed simp_all

lemma heap_inv_settle:
  "heap_inv s \<Longrightarrow> task_pc t < length (pcs s) \<Longrightarrow> heap_inv (settle t oc s)"
  by (cases "(t, oc, s)" rule: settle.cases)
     (simp_all add: heap_inv_await heap_inv_call)

lemma heap_inv_drop_task:
  "heap_inv s \<Longrightarrow> heap_inv (s\<lparr>tasks := take n (tasks s) @ drop (Suc n) (tasks s)\<rparr>)"
  by (auto simp add: heap_inv_iff dest: in_set_takeD in_set_dropD)

lemma heap_inv_joinRoom: "heap_inv s \<Longrightarrow> heap_inv (joinRoom s)"
  by (auto simp add: joinRoom_def connectSocket_def heap_inv_iff emit_def
           split: option.splits)

lemma heap_inv_step: "heap_inv s \<Longrightarrow> heap_inv (step e s)"
proof (cases e)
  case (GotLocalStream st)
  assume "heap_inv s"
  then show ?thesis unfolding GotLocalStream
    by (auto simp add: heap_inv_iff addTracks_def Let_def split: option.splits)
next
  case (ChangeRoomId r)
  assume "heap_inv s"
  then show ?thesis unfolding ChangeRoomId by (simp add: heap_inv_iff)
next
  case PressButton
  assume "heap_inv s"
  then show ?thesis unfolding PressButton
    by (simp add: heap_inv_endCall heap_inv_joinRoom)
next
  case Unmount
  assume "heap_inv s"
  then have "heap_inv (endCall (c_roomId mounted) s)" by (rule heap_inv_endCall)
  then show ?thesis unfolding Unmount
    by (auto simp add: cleanup_def Let_def heap_inv_iff split: option.splits)
next
  case (Recv m)
  assume "heap_inv s"
  then show ?thesis unfolding Recv by (simp add: heap_inv_on_signal split: option.splits)
next
  case (Settle n oc)
  assume h: "heap_inv s"
  show ?thesis
  proof (cases "n < length (tasks s)")
    case True
    then have "tasks s ! n \<in> set (tasks s)" by simp
    with h have "task_pc (tasks s ! n) < length (pcs s)" by (simp add: heap_inv_iff)
    then have "task_pc (tasks s ! n)
                 < length (pcs (s\<lparr>tasks := take n (tasks s) @ drop (Suc n) (tasks s)\<rparr>))"
      by simp
    with heap_inv_drop_task [OF h] True show ?thesis unfolding Settle
      by (simp add: heap_inv_settle)
  next
    case False
    with h show ?thesis unfolding Settle by simp
  qed
next
  case (PcIceCandidate i c)
  assume "heap_inv s"
  then show ?thesis unfolding PcIceCandidate by (simp split: option.splits)
next
  case (PcTrack i st)
  assume "heap_inv s"
  then show ?thesis unfolding PcTrack by (simp add: heap_inv_iff)
qed

lemma heap_inv_run: "heap_inv s \<Longrightarrow> heap_inv (run es s)"
  by (induction es arbitrary: s) (simp_all add: heap_inv_step)

lemma open_pcs_at_most_one: "heap_inv s \<Longrightarrow> length (open_pcs s) \<le> 1"
proof -
  assume h: "heap_inv s"
  have d: "distinct (open_pcs s)" by (simp add: open_pcs_def)
  show ?thesis
  proof (cases "pcRef s")
    case None
    with h have "open_pcs s = []"
      by (auto simp add: open_pcs_def heap_inv_iff closed_def filter_empty_conv)
    then show ?thesis by simp
  next
    case (Some j)
    with h have "set (open_pcs s) \<subseteq> {j}"
      by (auto simp add: open_pcs_def heap_inv_iff closed_def)
    then have "card (set (open_pcs s)) \<le> card {j}"
      by (intro card_mono) simp_all
    with d show ?thesis by (simp add: distinct_card)
  qed
qed

subsection \<open>Frame lemmas\<close>

lemma closed_call [simp]: "closed (call i c s) j \<longleftrightarrow> closed s j \<or> (j = i \<and> c = Close)"
  by (auto simp add: closed_def call_def)

lemma closed_warn [simp]: "closed (warn s) j = closed s j"
  by (simp add: closed_def warn_def)

lemma outbox_endCall:
  "outbox (endCall rid s) =
     outbox s @ (if socketRef s \<noteq> None \<and> rid \<noteq> [] then [Leave rid] else [])"
  by (auto simp add: endCall_def emit_def call_def Let_def split: option.splits)

lemma pcRef_ensurePeer: "pcRef (snd (ensurePeer cl s)) = Some (fst (ensurePeer cl s))"
  by (simp add: ensurePeer_def Let_def split: option.splits)

lemma ensurePeer_existing: "pcRef s = Some i \<Longrightarrow> ensurePeer cl s = (i, s)"
  by (simp add: ensurePeer_def)

lemma settle_frame:
  "pcRef (settle t oc s) = pcRef s \<and> pcs (settle t oc s) = pcs s
   \<and> joined (settle t oc s) = joined s \<and> remoteStream (settle t oc s) = remoteStream s
   \<and> socketRef (settle t oc s) = socketRef s
   \<and> take (length (engineLog s)) (engineLog (settle t oc s)) = engineLog s
   \<and> list_all (\<lambda>e. fst e = task_pc t) (drop (length (engineLog s)) (engineLog (settle t oc s)))"
  by (cases "(t, oc, s)" rule: settle.cases)
     (simp_all add: await_def call_def emit_def warn_def split: option.splits)

lemma needs_peer_creates:
  assumes "pcRef s = None" and "needs_peer m"
  shows "pcRef (on_signal cl m s) = Some (length (pcs s))
       \<and> length (pcs (on_signal cl m s)) = Suc (length (pcs s))"
  using assms
  by (cases m)
     (simp_all add: ensurePeer_def Let_def await_def call_def warn_def addTracks_def
           split: option.splits payload.splits)

subsection \<open>The candidates handed to the engine\<close>

lemma ice_applied_call:
  "ice_applied (call i c s) =
     ice_applied s @ (case c of AddIceCandidate x \<Rightarrow> [x] | _ \<Rightarrow> [])"
  by (simp add: ice_applied_def call_def)

lemma ice_applied_log: "engineLog s' = engineLog s \<Longrightarrow> ice_applied s' = ice_applied s"
  by (simp add: ice_applied_def)

lemma ice_applied_addTracks [simp]: "ice_applied (addTracks i st s) = ice_applied s"
  by (induction st rule: rev_induct) (simp_all add: ice_applied_def addTracks_def)

lemma ice_applied_await [simp]: "ice_applied (await t s) = ice_applied s"
  by (simp add: ice_applied_def await_def)

lemma ice_applied_warn [simp]: "ice_applied (warn s) = ice_applied s"
  by (simp add: ice_applied_def warn_def)

lemma ice_applied_emit [simp]: "ice_applied (emit m s) = ice_applied s"
  by (simp add: ice_applied_def emit_def split: option.splits)

lemma ice_applied_ensurePeer [simp]: "ice_applied (snd (ensurePeer cl s)) = ice_applied s"
proof (cases "pcRef s")
  case None
  show ?thesis
  proof (cases "c_localStream cl")
    case N: None
    with None show ?thesis by (simp add: ensurePeer_def Let_def ice_applied_def)
  next
    case (Some st)
    have "ice_applied (addTracks (length (pcs s)) st (s\<lparr>pcs := pcs s @ [cl]\<rparr>))
            = ice_applied (s\<lparr>pcs := pcs s @ [cl]\<rparr>)"
      by (rule ice_applied_addTracks)
    with None Some show ?thesis
      by (simp add: ensurePeer_def Let_def ice_applied_def)
  qed
next
  case (Some j)
  then show ?thesis by (simp add: ensurePeer_def)
qed

lemma ice_applied_endCall [simp]: "ice_applied (endCall rid s) = ice_applied s"
  by (auto simp add: endCall_def Let_def emit_def call_def ice_applied_def
           split: option.splits)

lemma ice_applied_status [simp]: "ice_applied (s\<lparr>status := x\<rparr>) = ice_applied s"
  by (simp add: ice_applied_def)

lemma ice_applied_tasks [simp]: "ice_applied (s\<lparr>tasks := ts\<rparr>) = ice_applied s"
  by (simp add: ice_applied_def)

lemma ice_applied_localStream [simp]:
  "ice_applied (s\<lparr>localStream := x\<rparr>) = ice_applied s"
  by (simp add: ice_applied_def)

lemma ice_applied_on_signal:
  "ice_applied (on_signal cl m s) =
     ice_applied s @ (case m of IceCandidate (Wellformed c) \<Rightarrow> [c] | _ \<Rightarrow> [])"
proof (cases m)
  case Ready
  obtain i s1 where e: "ensurePeer cl s = (i, s1)" by (cases "ensurePeer cl s")
  with ice_applied_ensurePeer [of cl s] Ready show ?thesis
    by (simp add: ice_applied_call)
next
  case (Offer p)
  obtain i s1 where e: "ensurePeer cl s = (i, s1)" by (cases "ensurePeer cl s")
  with ice_applied_ensurePeer [of cl s] Offer show ?thesis
    by (cases p) (simp_all add: ice_applied_call)
next
  case (Answer p)
  obtain i s1 where e: "ensurePeer cl s = (i, s1)" by (cases "ensurePeer cl s")
  with ice_applied_ensurePeer [of cl s] Answer show ?thesis
    by (cases p) (simp_all add: ice_applied_call)
next
  case (IceCandidate p)
  obtain i s1 where e: "ensurePeer cl s = (i, s1)" by (cases "ensurePeer cl s")
  with ice_applied_ensurePeer [of cl s] IceCandidate show ?thesis
    by (cases p) (simp_all add: ice_applied_call)
next
  case PeerLeft
  then show ?thesis by simp
qed (simp_all add: ice_applied_def)

lemma ice_applied_settle: "ice_applied (settle t oc s) = ice_applied s"
  by (cases "(t, oc, s)" rule: settle.cases) (simp_all add: ice_applied_call)

lemma ice_applied_step: "ice_applied (step e s) = ice_applied s @ ice_received [e] s"
proof (cases e)
  case (GotLocalStream st)
  show ?thesis unfolding GotLocalStream
    by (simp add: Let_def split: option.splits)
next
  case (ChangeRoomId r)
  then show ?thesis by (simp add: ice_applied_def)
next
  case PressButton
  have "ice_applied (joinRoom s) = ice_applied s"
    by (simp add: joinRoom_def connectSocket_def emit_def ice_applied_def
             split: option.splits)
  then show ?thesis unfolding PressButton by simp
next
  case Unmount
  have "engineLog (cleanup mounted s) = engineLog (endCall (c_roomId mounted) s)"
    by (simp add: cleanup_def Let_def split: option.splits)
  then have "ice_applied (cleanup mounted s) = ice_applied (endCall (c_roomId mounted) s)"
    by (rule ice_applied_log)
  then show ?thesis unfolding Unmount by simp
next
  case (Recv m)
  show ?thesis
  proof (cases "socketRef s")
    case None
    then show ?thesis unfolding Recv
      by (simp split: signal.splits payload.splits)
  next
    case (Some cl)
    then show ?thesis unfolding Recv
      by (simp add: ice_applied_on_signal split: signal.splits payload.splits)
  qed
next
  case (Settle n oc)
  show ?thesis unfolding Settle by (simp add: ice_applied_settle)
next
  case (PcIceCandidate i c)
  then show ?thesis by (simp split: option.splits)
next
  case (PcTrack i st)
  then show ?thesis by (simp add: ice_applied_def)
qed

lemma ice_applied_run: "ice_applied (run es s) = ice_applied s @ ice_received es s"
proof (induction es arbitrary: s)
  case Nil
  show ?case by simp
next
  case (Cons e es)
  have "ice_applied (run (e # es) s) = ice_applied (step e s) @ ice_received es (step e s)"
    by (simp add: Cons.IH)
  also have "\<dots> = ice_applied s @ ice_received [e] s @ ice_received es (step e s)"
    by (simp add: ice_applied_step)
  also have "\<dots> = ice_applied s @ ice_received (e # es) s"
    by simp
  finally show ?case .
qed

subsection \<open>Offers and answers emitted\<close>

lemma filter_remove_nth:
  "n < length xs \<Longrightarrow>
     length (filter Q (take n xs @ drop (Suc n) xs)) + (if Q (xs ! n) then 1 else 0)
       = length (filter Q xs)"
proof -
  assume "n < length xs"
  then have "xs = take n xs @ xs ! n # drop (Suc n) xs" by (rule id_take_nth_drop)
  then have "length (filter Q xs) = length (filter Q (take n xs @ xs ! n # drop (Suc n) xs))"
    by simp
  then show ?thesis by simp
qed

lemma outbox_emit: "outbox (emit m s) = outbox s @ (if socketRef s \<noteq> None then [m] else [])"
  by (simp add: emit_def split: option.splits)

lemma tasks_emit [simp]: "tasks (emit m s) = tasks s"
  by (simp add: emit_def split: option.splits)

lemma tasks_endCall [simp]: "tasks (endCall rid s) = tasks s"
  by (simp add: endCall_def emit_def call_def Let_def split: option.splits)

lemma tasks_ensurePeer [simp]: "tasks (snd (ensurePeer cl s)) = tasks s"
  by (simp add: ensurePeer_def addTracks_def Let_def split: option.splits)

lemma outbox_ensurePeer [simp]: "outbox (snd (ensurePeer cl s)) = outbox s"
  by (simp add: ensurePeer_def addTracks_def Let_def split: option.splits)

lemma outbox_tasks_on_signal:
  "outbox (on_signal cl m s) =
     outbox s @ (case m of PeerLeft \<Rightarrow> (if socketRef s \<noteq> None \<and> c_roomId cl \<noteq> []
                                          then [Leave (c_roomId cl)] else [])
                 | _ \<Rightarrow> [])
   \<and> tasks (on_signal cl m s) =
     tasks s @ (case m of
                  Ready \<Rightarrow> [ReadyCreateOffer (c_roomId cl) (fst (ensurePeer cl s))]
                | Offer (Wellformed d) \<Rightarrow> [OfferSetRemote (c_roomId cl) (fst (ensurePeer cl s))]
                | Answer (Wellformed d) \<Rightarrow> [AnswerSetRemote (fst (ensurePeer cl s))]
                | IceCandidate (Wellformed c) \<Rightarrow> [IceAdd (fst (ensurePeer cl s))]
                | _ \<Rightarrow> [])"
proof -
  obtain i s1 where e: "ensurePeer cl s = (i, s1)" by (cases "ensurePeer cl s")
  with outbox_ensurePeer [of cl s] tasks_ensurePeer [of cl s]
  have o: "outbox s1 = outbox s" and t: "tasks s1 = tasks s" by simp_all
  show ?thesis
    by (cases m)
       (simp_all add: e o t await_def call_def warn_def outbox_endCall
             split: payload.splits)
qed

lemma outbox_tasks_other:
  assumes "\<And>m. e \<noteq> Recv m" and "\<And>n oc. e \<noteq> Settle n oc"
  shows "tasks (step e s) = tasks s
       \<and> (\<exists>ms. outbox (step e s) = outbox s @ ms
               \<and> list_all (\<lambda>m. \<not> is_offer_out m \<and> \<not> is_answer_out m) ms)"
proof (cases e)
  case (GotLocalStream st)
  then show ?thesis by (simp add: Let_def addTracks_def split: option.splits)
next
  case (ChangeRoomId r)
  then show ?thesis by simp
next
  case PressButton
  have "tasks (joinRoom s) = tasks s"
    by (simp add: joinRoom_def connectSocket_def emit_def split: option.splits)
  moreover have "\<exists>ms. outbox (joinRoom s) = outbox s @ ms
                   \<and> list_all (\<lambda>m. \<not> is_offer_out m \<and> \<not> is_answer_out m) ms"
    by (simp add: joinRoom_def connectSocket_def emit_def split: option.splits)
  ultimately show ?thesis unfolding PressButton by (simp add: outbox_endCall)
next
  case Unmount
  have "tasks (cleanup mounted s) = tasks (endCall (c_roomId mounted) s)"
    and "outbox (cleanup mounted s) = outbox (endCall (c_roomId mounted) s)"
    by (simp_all add: cleanup_def Let_def split: option.splits)
  then show ?thesis unfolding Unmount by (simp add: outbox_endCall)
next
  case (Recv m)
  with assms(1) [of m] show ?thesis by blast
next
  case (Settle n oc)
  with assms(2) [of n oc] show ?thesis by blast
next
  case (PcIceCandidate i c)
  then show ?thesis by (simp add: outbox_emit split: option.splits)
next
  case (PcTrack i st)
  then show ?thesis by simp
qed

lemma settle_offers:
  "offers_sent (settle t oc s) + ready_pending (settle t oc s) + (if ready_task t then 0 else 1)
     \<le> offers_sent s + ready_pending s + 1"
  by (cases "(t, oc, s)" rule: settle.cases)
     (simp_all add: offers_sent_def ready_pending_def await_def call_def warn_def outbox_emit)

lemma settle_answers:
  "answers_sent (settle t oc s) + offer_pending (settle t oc s) + (if offer_task t then 0 else 1)
     \<le> answers_sent s + offer_pending s + 1"
  by (cases "(t, oc, s)" rule: settle.cases)
     (simp_all add: answers_sent_def offer_pending_def await_def call_def warn_def outbox_emit)

lemma step_offers:
  "offers_sent (step e s) + ready_pending (step e s)
     \<le> offers_sent s + ready_pending s + ready_delivered [e] s"
proof (cases e)
  case (Recv m)
  show ?thesis
  proof (cases "socketRef s")
    case None
    then show ?thesis unfolding Recv by simp
  next
    case (Some cl)
    have st: "step e s = on_signal cl m s" using Recv Some by simp
    have rd: "ready_delivered [e] s = (if m = Ready then 1 else 0)"
      using Recv Some by (simp split: signal.splits)
    from outbox_tasks_on_signal [of cl m s] show ?thesis unfolding st rd
      by (cases m) (simp_all add: offers_sent_def ready_pending_def split: payload.splits)
  qed
next
  case (Settle n oc)
  show ?thesis
  proof (cases "n < length (tasks s)")
    case True
    let ?s0 = "s\<lparr>tasks := take n (tasks s) @ drop (Suc n) (tasks s)\<rparr>"
    from filter_remove_nth [OF True, of ready_task]
    have "ready_pending ?s0 + (if ready_task (tasks s ! n) then 1 else 0) = ready_pending s"
      by (simp add: ready_pending_def)
    moreover have "offers_sent ?s0 = offers_sent s" by (simp add: offers_sent_def)
    moreover note settle_offers [of "tasks s ! n" oc ?s0]
    ultimately show ?thesis unfolding Settle using True
      by (simp split: if_splits)
  next
    case False
    then show ?thesis unfolding Settle by simp
  qed
next
  case (GotLocalStream st)
  with outbox_tasks_other [of e s] show ?thesis
    by (auto simp add: offers_sent_def ready_pending_def list_all_iff filter_empty_conv)
next
  case (ChangeRoomId r)
  with outbox_tasks_other [of e s] show ?thesis
    by (auto simp add: offers_sent_def ready_pending_def list_all_iff filter_empty_conv)
next
  case PressButton
  with outbox_tasks_other [of e s] show ?thesis
    by (auto simp add: offers_sent_def ready_pending_def list_all_iff filter_empty_conv
             simp del: step.simps)
next
  case Unmount
  with outbox_tasks_other [of e s] show ?thesis
    by (auto simp add: offers_sent_def ready_pending_def list_all_iff filter_empty_conv
             simp del: step.simps)
next
  case (PcIceCandidate i c)
  with outbox_tasks_other [of e s] show ?thesis
    by (auto simp add: offers_sent_def ready_pending_def list_all_iff filter_empty_conv
             simp del: step.simps)
next
  case (PcTrack i st)
  with outbox_tasks_other [of e s] show ?thesis
    by (auto simp add: offers_sent_def ready_pending_def list_all_iff filter_empty_conv
             simp del: step.simps)
qed

lemma step_answers:
  "answers_sent (step e s) + offer_pending (step e s)
     \<le> answers_sent s + offer_pending s + offers_delivered [e] s"
proof (cases e)
  case (Recv m)
  show ?thesis
  proof (cases "socketRef s")
    case None
    then show ?thesis unfolding Recv by simp
  next
    case (Some cl)
    have st: "step e s = on_signal cl m s" using Recv Some by simp
    have rd: "offers_delivered [e] s =
                (case m of Offer (Wellformed d) \<Rightarrow> 1 | _ \<Rightarrow> 0)"
      using Recv Some by (simp split: signal.splits payload.splits)
    from outbox_tasks_on_signal [of cl m s] show ?thesis unfolding st rd
      by (cases m) (simp_all add: answers_sent_def offer_pending_def split: payload.splits)
  qed
next
  case (Settle n oc)
  show ?thesis
  proof (cases "n < length (tasks s)")
    case True
    let ?s0 = "s\<lparr>tasks := take n (tasks s) @ drop (Suc n) (tasks s)\<rparr>"
    from filter_remove_nth [OF True, of offer_task]
    have "offer_pending ?s0 + (if offer_task (tasks s ! n) then 1 else 0) = offer_pending s"
      by (simp add: offer_pending_def)
    moreover have "answers_sent ?s0 = answers_sent s" by (simp add: answers_sent_def)
    moreover note settle_answers [of "tasks s ! n" oc ?s0]
    ultimately show ?thesis unfolding Settle using True
      by (simp split: if_splits)
  next
    case False
    then show ?thesis unfolding Settle by simp
  qed
next
  case (GotLocalStream st)
  with outbox_tasks_other [of e s] show ?thesis
    by (auto simp add: answers_sent_def offer_pending_def list_all_iff filter_empty_conv)
next
  case (ChangeRoomId r)
  with outbox_tasks_other [of e s] show ?thesis
    by (auto simp add: answers_sent_def offer_pending_def list_all_iff filter_empty_conv)
next
  case PressButton
  with outbox_tasks_other [of e s] show ?thesis
    by (auto simp add: answers_sent_def offer_pending_def list_all_iff filter_empty_conv
             simp del: step.simps)
next
  case Unmount
  with outbox_tasks_other [of e s] show ?thesis
    by (auto simp add: answers_sent_def offer_pending_def list_all_iff filter_empty_conv
             simp del: step.simps)
next
  case (PcIceCandidate i c)
  with outbox_tasks_other [of e s] show ?thesis
    by (auto simp add: answers_sent_def offer_pending_def list_all_iff filter_empty_conv
             simp del: step.simps)
next
  case (PcTrack i st)
  with outbox_tasks_other [of e s] show ?thesis
    by (auto simp add: answers_sent_def offer_pending_def list_all_iff filter_empty_conv
             simp del: step.simps)
qed


lemma run_offers:
  "offers_sent (run es s) + ready_pending (run es s)
     \<le> offers_sent s + ready_pending s + ready_delivered es s"
proof (induction es arbitrary: s)
  case Nil
  show ?case by simp
next
  case (Cons e es)
  have "offers_sent (run (e # es) s) + ready_pending (run (e # es) s)
          \<le> offers_sent (step e s) + ready_pending (step e s) + ready_delivered es (step e s)"
    using Cons.IH [of "step e s"] by simp
  also have "\<dots> \<le> offers_sent s + ready_pending s + ready_delivered [e] s
                    + ready_delivered es (step e s)"
    using step_offers [of e s] by simp
  also have "\<dots> = offers_sent s + ready_pending s + ready_delivered (e # es) s"
    by simp
  finally show ?case .
qed

lemma run_answers:
  "answers_sent (run es s) + offer_pending (run es s)
     \<le> answers_sent s + offer_pending s + offers_delivered es s"
proof (induction es arbitrary: s)
  case Nil
  show ?case by simp
next
  case (Cons e es)
  have "answers_sent (run (e # es) s) + offer_pending (run (e # es) s)
          \<le> answers_sent (step e s) + offer_pending (step e s) + offers_delivered es (step e s)"
    using Cons.IH [of "step e s"] by simp
  also have "\<dots> \<le> answers_sent s + offer_pending s + offers_delivered [e] s
                    + offers_delivered es (step e s)"
    using step_answers [of e s] by simp
  also have "\<dots> = answers_sent s + offer_pending s + offers_delivered (e # es) s"
    by simp
  finally show ?case .
qed

subsection \<open>Rendering of the participant count\<close>

lemma decimal_one: "decimal (Suc 0) = ''1''"
  by code_simp

lemma numeral_value_decimal: "numeral_value (decimal n) = n"
proof (induction n rule: decimal.induct)
  case (1 n)
  show ?case
  proof (cases "n < 10")
    case True
    then show ?thesis by (simp add: decimal.simps [of n] numeral_value_def)
  next
    case False
    with 1 have "numeral_value (decimal (n div 10)) = n div 10" by simp
    with False show ?thesis
      by (simp add: decimal.simps [of n] numeral_value_def)
  qed
qed

text \<open>
  C9. Once the handlers are registered, a \<^verbatim>\<open>joined\<close> message with count \<open>n\<close>, a
  non-negative integer below \<open>2^53\<close>, sets the status to \<^verbatim>\<open>joined room (\<close>, the
  decimal numeral of \<open>n\<close>, \<^verbatim>\<open>)\<close>; for count 1 it is \<^verbatim>\<open>joined room (1)\<close>.
\<close>

theorem joined_status:
  assumes "socketRef s = Some cl"
  shows "status (step (Recv (Joined n)) s) = ''joined room ('' @ decimal (unat n) @ '')''
       \<and> numeral_value (decimal (unat n)) = unat n
       \<and> unat n < 2 ^ 53
       \<and> status (step (Recv (Joined 1)) s) = ''joined room (1)''"
proof -
  have "unat n < 2 ^ LENGTH(53)" by (rule unsigned_less)
  then have "unat n < 2 ^ 53" by simp
  with assms show ?thesis
    by (simp add: number_toString_def decimal_one numeral_value_decimal)
qed

theorem joined_status_witness:
  "status (step (Recv (Joined 1)) (run [GotLocalStream [7, 8], PressButton] initial))
     = ''joined room (1)''"
proof -
  have a: "socketRef (run [GotLocalStream [7, 8], PressButton] initial)
             = Some \<lparr>c_roomId = ''test-room'', c_localStream = Some [7, 8]\<rparr>"
    by code_simp
  from joined_status [OF a] show ?thesis by blast
qed

subsection \<open>Joining without a local stream\<close>

text \<open>
  C10. Without a local stream \<^verbatim>\<open>joinRoom\<close> returns at once: the state is the same,
  so no socket is created, nothing is emitted, and \<^verbatim>\<open>joined\<close> and \<^verbatim>\<open>status\<close> keep
  their values.
\<close>

theorem joinRoom_without_stream:
  "localStream s = None \<Longrightarrow> joinRoom s = s"
  by (simp add: joinRoom_def)

theorem joinRoom_without_stream_witness:
  "localStream initial = None \<and> joinRoom initial = initial"
  using joinRoom_without_stream [of initial] by (simp add: initial_def)

subsection \<open>Teardown\<close>

text \<open>
  C5. \<^verbatim>\<open>endCall\<close> called twice in a row, from any state and in any closures, ends
  with no current connection, no remote stream, \<^verbatim>\<open>joined\<close> false and status
  \<^verbatim>\<open>idle\<close>. The second call finds \<open>pcRef\<close> empty, so it calls nothing on the engine;
  its only trace is a second \<^verbatim>\<open>leave\<close> message when there is a socket and a room
  identifier. Every dereference in \<^verbatim>\<open>endCall\<close> is guarded, so the function has no
  failing branch.
\<close>

theorem endCall_twice:
  "pcRef (endCall r2 (endCall r1 s)) = None
   \<and> remoteStream (endCall r2 (endCall r1 s)) = None
   \<and> status (endCall r2 (endCall r1 s)) = ''idle''
   \<and> joined (endCall r2 (endCall r1 s)) = False
   \<and> engineLog (endCall r2 (endCall r1 s)) = engineLog (endCall r1 s)
   \<and> endCall r2 (endCall r1 s) =
       (endCall r1 s)\<lparr>outbox := outbox (endCall r1 s) @
          (if socketRef s \<noteq> None \<and> r2 \<noteq> [] then [Leave r2] else [])\<rparr>"
  by (auto simp add: endCall_def emit_def call_def Let_def split: option.splits)

theorem endCall_twice_witness:
  "status (endCall ''test-room'' (endCall ''test-room''
      (run [GotLocalStream [7, 8], PressButton, Recv Ready] initial))) = ''idle''"
  using endCall_twice [of "''test-room''" "''test-room''"
      "run [GotLocalStream [7, 8], PressButton, Recv Ready] initial"]
  by blast

text \<open>
  C4, as stated, fails in both directions. The \<^verbatim>\<open>peer-left\<close> handler calls the same
  \<^verbatim>\<open>endCall\<close>, which emits \<^verbatim>\<open>leave\<close>; and a local leave with an empty room
  identifier emits none.
\<close>

theorem peer_left_emits_leave:
  "outbox (run [GotLocalStream [7, 8], PressButton] initial) = [Join ''test-room'']
   \<and> outbox (run [GotLocalStream [7, 8], PressButton, Recv PeerLeft] initial)
       = [Join ''test-room'', Leave ''test-room'']
   \<and> outbox (run [GotLocalStream [7, 8], ChangeRoomId [], PressButton, PressButton] initial)
       = [Join []]"
  by code_simp

text \<open>
  C4, amended. Every teardown runs the same \<^verbatim>\<open>endCall\<close>, whoever started it: the
  \<^verbatim>\<open>peer-left\<close> handler with the room identifier its closure captured, the button
  with the current one. It tears down the connection resource (stops the senders'
  tracks and closes the current connection, if any; clears \<open>pcRef\<close>, the remote stream
  and \<^verbatim>\<open>joined\<close>; status \<^verbatim>\<open>idle\<close>), and it emits \<^verbatim>\<open>leave\<close> exactly when there is
  a socket and that room identifier is not empty. So a \<^verbatim>\<open>peer-left\<close> teardown does
  tear the connection down, and it emits \<^verbatim>\<open>leave\<close> as well.
\<close>

theorem leave_on_every_teardown:
  "outbox (endCall rid s) =
     outbox s @ (if socketRef s \<noteq> None \<and> rid \<noteq> [] then [Leave rid] else [])
   \<and> engineLog (endCall rid s) =
     engineLog s @ (case pcRef s of None \<Rightarrow> [] | Some i \<Rightarrow> [(i, StopSenderTracks), (i, Close)])
   \<and> pcRef (endCall rid s) = None
   \<and> remoteStream (endCall rid s) = None
   \<and> joined (endCall rid s) = False
   \<and> status (endCall rid s) = ''idle''
   \<and> (socketRef s = Some cl \<longrightarrow>
        outbox (step (Recv PeerLeft) s) =
          outbox s @ (if c_roomId cl \<noteq> [] then [Leave (c_roomId cl)] else [])
        \<and> engineLog (step (Recv PeerLeft) s) =
          engineLog s @ (case pcRef s of None \<Rightarrow> []
                         | Some i \<Rightarrow> [(i, StopSenderTracks), (i, Close)])
        \<and> pcRef (step (Recv PeerLeft) s) = None
        \<and> remoteStream (step (Recv PeerLeft) s) = None
        \<and> joined (step (Recv PeerLeft) s) = False
        \<and> status (step (Recv PeerLeft) s) = ''idle'')
   \<and> (joined s \<longrightarrow>
        outbox (step PressButton s) =
          outbox s @ (if socketRef s \<noteq> None \<and> roomId s \<noteq> [] then [Leave (roomId s)] else [])
        \<and> engineLog (step PressButton s) =
          engineLog s @ (case pcRef s of None \<Rightarrow> []
                         | Some i \<Rightarrow> [(i, StopSenderTracks), (i, Close)])
        \<and> pcRef (step PressButton s) = None
        \<and> remoteStream (step PressButton s) = None
        \<and> joined (step PressButton s) = False
        \<and> status (step PressButton s) = ''idle'')"
proof -
  have e: "outbox (endCall r t) =
             outbox t @ (if socketRef t \<noteq> None \<and> r \<noteq> [] then [Leave r] else [])
         \<and> engineLog (endCall r t) =
             engineLog t @ (case pcRef t of None \<Rightarrow> []
                            | Some i \<Rightarrow> [(i, StopSenderTracks), (i, Close)])
         \<and> pcRef (endCall r t) = None
         \<and> remoteStream (endCall r t) = None
         \<and> joined (endCall r t) = False
         \<and> status (endCall r t) = ''idle''" for r t
    by (auto simp add: endCall_def emit_def call_def Let_def split: option.splits)
  from e [of rid s] e [of "c_roomId cl" "s\<lparr>status := ''peer left''\<rparr>"] e [of "roomId s" s]
  show ?thesis by simp
qed

theorem leave_on_every_teardown_witness:
  "outbox (step (Recv PeerLeft) (run [GotLocalStream [7, 8], PressButton, Recv Ready] initial))
     = [Join ''test-room'', Leave ''test-room'']
   \<and> engineLog (step (Recv PeerLeft)
                  (run [GotLocalStream [7, 8], PressButton, Recv Ready] initial))
     = [(0, AddTrack 7), (0, AddTrack 8), (0, CreateOffer), (0, StopSenderTracks), (0, Close)]
   \<and> pcRef (step (Recv PeerLeft) (run [GotLocalStream [7, 8], PressButton, Recv Ready] initial))
     = None
   \<and> outbox (step PressButton (run [GotLocalStream [7, 8], PressButton, Recv Ready] initial))
     = [Join ''test-room'', Leave ''test-room'']
   \<and> pcRef (step PressButton (run [GotLocalStream [7, 8], PressButton, Recv Ready] initial))
     = None"
proof -
  let ?s = "run [GotLocalStream [7, 8], PressButton, Recv Ready] initial"
  let ?cl = "\<lparr>c_roomId = ''test-room'', c_localStream = Some [7, 8]\<rparr>"
  have a: "socketRef ?s = Some ?cl" by code_simp
  have b: "joined ?s" by code_simp
  have c: "outbox ?s @ (if c_roomId ?cl \<noteq> [] then [Leave (c_roomId ?cl)] else [])
             = [Join ''test-room'', Leave ''test-room'']"
    by code_simp
  have d: "outbox ?s @ (if socketRef ?s \<noteq> None \<and> roomId ?s \<noteq> []
                        then [Leave (roomId ?s)] else [])
             = [Join ''test-room'', Leave ''test-room'']"
    by code_simp
  have e: "engineLog ?s @ (case pcRef ?s of None \<Rightarrow> []
                           | Some i \<Rightarrow> [(i, StopSenderTracks), (i, Close)])
             = [(0, AddTrack 7), (0, AddTrack 8), (0, CreateOffer), (0, StopSenderTracks),
                (0, Close)]"
    by code_simp
  from leave_on_every_teardown [where s = ?s and cl = ?cl and rid = "''test-room''"] a b
  have "outbox (step (Recv PeerLeft) ?s) =
          outbox ?s @ (if c_roomId ?cl \<noteq> [] then [Leave (c_roomId ?cl)] else [])"
    and "engineLog (step (Recv PeerLeft) ?s) =
          engineLog ?s @ (case pcRef ?s of None \<Rightarrow> []
                          | Some i \<Rightarrow> [(i, StopSenderTracks), (i, Close)])"
    and "pcRef (step (Recv PeerLeft) ?s) = None"
    and "outbox (step PressButton ?s) =
          outbox ?s @ (if socketRef ?s \<noteq> None \<and> roomId ?s \<noteq> []
                       then [Leave (roomId ?s)] else [])"
    and "pcRef (step PressButton ?s) = None"
    by blast+
  with c d e show ?thesis by (simp only: simp_thms)
qed

subsection \<open>Candidates\<close>

text \<open>
  C1, as stated, fails: nothing is buffered. A candidate that arrives before the offer
  is handed to \<^verbatim>\<open>addIceCandidate\<close> at once, on a connection created for it, before
  \<^verbatim>\<open>setRemoteDescription\<close> is called, and it is not handed over again afterwards. This
  is so whether the engine rejects the early call (first run: the warning is logged
  and the candidate is gone) or accepts it (second run).
\<close>

theorem early_candidate_not_buffered:
  "calls_on (run [GotLocalStream [7, 8], PressButton,
                  Recv (IceCandidate (Wellformed ''c'')), Settle 0 Rejected,
                  Recv (Offer (Wellformed ''o'')), Settle 0 (Resolved []),
                  Settle 0 (Resolved ''a''), Settle 0 (Resolved [])] initial) 0
     = [AddTrack 7, AddTrack 8, AddIceCandidate ''c'', SetRemoteDescription ''o'',
        CreateAnswer, SetLocalDescription ''a'']
   \<and> console (run [GotLocalStream [7, 8], PressButton,
                  Recv (IceCandidate (Wellformed ''c'')), Settle 0 Rejected,
                  Recv (Offer (Wellformed ''o'')), Settle 0 (Resolved []),
                  Settle 0 (Resolved ''a''), Settle 0 (Resolved [])] initial)
     = [''Failed to add ICE'']
   \<and> calls_on (run [GotLocalStream [7, 8], PressButton,
                  Recv (IceCandidate (Wellformed ''c'')), Settle 0 (Resolved []),
                  Recv (Offer (Wellformed ''o'')), Settle 0 (Resolved []),
                  Settle 0 (Resolved ''a''), Settle 0 (Resolved [])] initial) 0
     = [AddTrack 7, AddTrack 8, AddIceCandidate ''c'', SetRemoteDescription ''o'',
        CreateAnswer, SetLocalDescription ''a'']"
  by code_simp

text \<open>
  C1, amended. Every candidate that the \<^verbatim>\<open>ice-candidate\<close> handler receives and
  constructs is handed to \<^verbatim>\<open>addIceCandidate\<close> of the current connection (created on
  the spot when there is none) at the moment it arrives, whether or not a remote
  description has been applied; over any run the candidates handed to the engine are
  exactly the candidates received, once each, in order of arrival. What the engine
  does with a candidate is not the component's: a rejection is logged and the
  candidate is not retried.
\<close>

theorem candidates_forwarded_at_once:
  "(socketRef s = Some cl \<longrightarrow>
      engineLog (step (Recv (IceCandidate (Wellformed c))) s)
        = engineLog (snd (ensurePeer cl s)) @ [(fst (ensurePeer cl s), AddIceCandidate c)])
   \<and> ice_applied (run es s) = ice_applied s @ ice_received es s"
proof -
  have "socketRef s = Some cl \<Longrightarrow>
      engineLog (step (Recv (IceCandidate (Wellformed c))) s)
        = engineLog (snd (ensurePeer cl s)) @ [(fst (ensurePeer cl s), AddIceCandidate c)]"
    by (cases "ensurePeer cl s") (simp add: await_def call_def)
  then show ?thesis by (simp add: ice_applied_run)
qed

theorem candidates_forwarded_at_once_witness:
  "ice_applied (run [Recv (IceCandidate (Wellformed ''c1'')), Settle 0 Rejected,
                     Recv (IceCandidate (Wellformed ''c2'')),
                     Recv (Offer (Wellformed ''o'')), Settle 1 (Resolved [])]
                  (run [GotLocalStream [7, 8], PressButton] initial)) = [''c1'', ''c2'']
   \<and> engineLog (step (Recv (IceCandidate (Wellformed ''c1'')))
                  (run [GotLocalStream [7, 8], PressButton] initial))
       = [(0, AddTrack 7), (0, AddTrack 8), (0, AddIceCandidate ''c1'')]"
proof -
  let ?s = "run [GotLocalStream [7, 8], PressButton] initial"
  let ?cl = "\<lparr>c_roomId = ''test-room'', c_localStream = Some [7, 8]\<rparr>"
  let ?es = "[Recv (IceCandidate (Wellformed ''c1'')), Settle 0 Rejected,
              Recv (IceCandidate (Wellformed ''c2'')),
              Recv (Offer (Wellformed ''o'')), Settle 1 (Resolved [])]"
  have a: "socketRef ?s = Some ?cl" by code_simp
  have b: "ice_applied ?s = []" by code_simp
  have c: "ice_received ?es ?s = [''c1'', ''c2'']" by code_simp
  have d: "engineLog (snd (ensurePeer ?cl ?s)) @ [(fst (ensurePeer ?cl ?s), AddIceCandidate ''c1'')]
             = [(0, AddTrack 7), (0, AddTrack 8), (0, AddIceCandidate ''c1'')]"
    by code_simp
  from candidates_forwarded_at_once [of ?s ?cl "''c1''" ?es] a b c d
  show ?thesis by (simp only: append_Nil simp_thms)
qed

text \<open>
  C6. With a current connection \<open>i\<close>, a candidate on which the constructor throws, and
  one that the engine rejects, both end in the \<^verbatim>\<open>catch\<close>: a warning is logged and
  nothing else changes. The connection stays current and is not closed; status,
  \<^verbatim>\<open>joined\<close>, the remote stream and the outbox are the same.
\<close>

theorem malformed_candidate_swallowed:
  assumes "socketRef s = Some cl" and "pcRef s = Some i"
  shows "step (Recv (IceCandidate Malformed)) s = warn s
       \<and> step (Settle (length (tasks s)) Rejected) (step (Recv (IceCandidate (Wellformed c))) s)
           = warn (call i (AddIceCandidate c) s)
       \<and> pcRef (warn (call i (AddIceCandidate c) s)) = Some i
       \<and> status (warn (call i (AddIceCandidate c) s)) = status s
       \<and> joined (warn (call i (AddIceCandidate c) s)) = joined s
       \<and> remoteStream (warn (call i (AddIceCandidate c) s)) = remoteStream s
       \<and> outbox (warn (call i (AddIceCandidate c) s)) = outbox s
       \<and> pcs (warn (call i (AddIceCandidate c) s)) = pcs s
       \<and> closed (warn (call i (AddIceCandidate c) s)) j = closed s j"
  using assms
  by (simp add: ensurePeer_def await_def call_def warn_def closed_def)

theorem malformed_candidate_swallowed_witness:
  "status (run [GotLocalStream [7, 8], PressButton, Recv Ready, Settle 0 (Resolved ''o''),
                Settle 0 (Resolved []), Recv (Answer (Wellformed ''a'')),
                Settle 0 (Resolved [])] initial) = ''connected (answer set)''
   \<and> status (step (Settle 0 Rejected) (step (Recv (IceCandidate (Wellformed ''bad'')))
        (run [GotLocalStream [7, 8], PressButton, Recv Ready, Settle 0 (Resolved ''o''),
              Settle 0 (Resolved []), Recv (Answer (Wellformed ''a'')),
              Settle 0 (Resolved [])] initial))) = ''connected (answer set)''
   \<and> pcRef (step (Settle 0 Rejected) (step (Recv (IceCandidate (Wellformed ''bad'')))
        (run [GotLocalStream [7, 8], PressButton, Recv Ready, Settle 0 (Resolved ''o''),
              Settle 0 (Resolved []), Recv (Answer (Wellformed ''a'')),
              Settle 0 (Resolved [])] initial))) = Some 0"
proof -
  let ?s = "run [GotLocalStream [7, 8], PressButton, Recv Ready, Settle 0 (Resolved ''o''),
                 Settle 0 (Resolved []), Recv (Answer (Wellformed ''a'')),
                 Settle 0 (Resolved [])] initial"
  let ?cl = "\<lparr>c_roomId = ''test-room'', c_localStream = Some [7, 8]\<rparr>"
  have a: "socketRef ?s = Some ?cl" by code_simp
  have b: "pcRef ?s = Some 0" by code_simp
  have c: "status ?s = ''connected (answer set)''" by code_simp
  have d: "length (tasks ?s) = 0" by code_simp
  from malformed_candidate_swallowed [OF a b, of "''bad''"] c d
  show ?thesis by (simp only: simp_thms)
qed

subsection \<open>One connection at a time\<close>

text \<open>
  C7. \<^verbatim>\<open>ensurePeer\<close> returns the current connection, and the state unchanged, when
  there is one; so calling it again after any call changes nothing and returns the same
  connection. In every state the component reaches from its initial state, by any
  sequence of events, at most one connection is created and not closed.
\<close>

theorem ensurePeer_idempotent:
  "(pcRef s = Some i \<longrightarrow> ensurePeer cl s = (i, s))
   \<and> ensurePeer cl' (snd (ensurePeer cl s)) = ensurePeer cl s
   \<and> length (open_pcs (run es initial)) \<le> 1"
proof -
  have "ensurePeer cl' (snd (ensurePeer cl s)) = (fst (ensurePeer cl s), snd (ensurePeer cl s))"
    by (rule ensurePeer_existing) (rule pcRef_ensurePeer)
  moreover have "length (open_pcs (run es initial)) \<le> 1"
    by (intro open_pcs_at_most_one heap_inv_run heap_inv_initial)
  ultimately show ?thesis by (simp add: ensurePeer_existing)
qed

theorem ensurePeer_idempotent_witness:
  "pcRef (run [GotLocalStream [7, 8], PressButton, Recv Ready] initial) = Some 0
   \<and> fst (ensurePeer mounted (run [GotLocalStream [7, 8], PressButton, Recv Ready] initial)) = 0
   \<and> snd (ensurePeer mounted (run [GotLocalStream [7, 8], PressButton, Recv Ready] initial))
       = run [GotLocalStream [7, 8], PressButton, Recv Ready] initial
   \<and> length (open_pcs (run [GotLocalStream [7, 8], PressButton, Recv Ready, PressButton,
                             PressButton, Recv Ready] initial)) \<le> 1"
proof -
  have a: "pcRef (run [GotLocalStream [7, 8], PressButton, Recv Ready] initial) = Some 0"
    by code_simp
  from ensurePeer_idempotent
         [of "run [GotLocalStream [7, 8], PressButton, Recv Ready] initial" 0 mounted mounted
             "[GotLocalStream [7, 8], PressButton, Recv Ready, PressButton,
               PressButton, Recv Ready]"] a
  show ?thesis by simp
qed

subsection \<open>Late results and repeated messages\<close>

text \<open>
  C2, as stated, fails: the component tags nothing with a generation. After a leave
  and a new join, an \<^verbatim>\<open>answer\<close> to the offer of the abandoned attempt is handled like
  any other: \<^verbatim>\<open>ensurePeer\<close> creates connection 1 for it and the old description is
  applied to that connection. And when the promises of the abandoned \<^verbatim>\<open>ready\<close>
  handler resolve after the teardown, the handler completes and overwrites the status.
\<close>

theorem stale_result_changes_new_attempt:
  "pcRef (run [GotLocalStream [7, 8], PressButton, Recv Ready, PressButton, PressButton]
            initial) = None
   \<and> pcRef (run [GotLocalStream [7, 8], PressButton, Recv Ready, PressButton, PressButton,
                 Recv (Answer (Wellformed ''old''))] initial) = Some 1
   \<and> calls_on (run [GotLocalStream [7, 8], PressButton, Recv Ready, PressButton, PressButton,
                 Recv (Answer (Wellformed ''old''))] initial) 1
       = [AddTrack 7, AddTrack 8, SetRemoteDescription ''old'']
   \<and> status (run [GotLocalStream [7, 8], PressButton, Recv Ready, PressButton, PressButton]
            initial) = ''idle''
   \<and> status (run [GotLocalStream [7, 8], PressButton, Recv Ready, PressButton, PressButton,
                 Settle 0 (Resolved ''o''), Settle 0 (Resolved [])] initial) = ''sent offer''"
  by code_simp

text \<open>
  C2, amended. In every state reached from the initial one, the settlement of a pending
  promise leaves \<open>pcRef\<close>, the set of connections, \<^verbatim>\<open>joined\<close>, the remote stream and the
  socket as they are, and every engine call it makes is on the connection its handler
  obtained; when that connection is no longer the current one, \<^verbatim>\<open>endCall\<close> has closed
  it. So a late result never touches the connection of a later attempt. It may still
  emit an offer or an answer and overwrite the status. A late message whose handler
  starts with \<^verbatim>\<open>ensurePeer\<close>, delivered when there is no current connection, creates
  one.
\<close>

theorem stale_settlement_confined:
  assumes "s = run es initial" and "n < length (tasks s)"
  shows "pcRef (step (Settle n oc) s) = pcRef s
       \<and> pcs (step (Settle n oc) s) = pcs s
       \<and> joined (step (Settle n oc) s) = joined s
       \<and> remoteStream (step (Settle n oc) s) = remoteStream s
       \<and> socketRef (step (Settle n oc) s) = socketRef s
       \<and> take (length (engineLog s)) (engineLog (step (Settle n oc) s)) = engineLog s
       \<and> list_all (\<lambda>e. fst e = task_pc (tasks s ! n))
            (drop (length (engineLog s)) (engineLog (step (Settle n oc) s)))
       \<and> (pcRef s \<noteq> Some (task_pc (tasks s ! n)) \<longrightarrow> closed s (task_pc (tasks s ! n)))
       \<and> (socketRef s = Some cl \<and> pcRef s = None \<and> needs_peer m \<longrightarrow>
            pcRef (step (Recv m) s) = Some (length (pcs s))
            \<and> length (pcs (step (Recv m) s)) = Suc (length (pcs s)))"
proof -
  let ?s0 = "s\<lparr>tasks := take n (tasks s) @ drop (Suc n) (tasks s)\<rparr>"
  have st: "step (Settle n oc) s = settle (tasks s ! n) oc ?s0"
    using assms(2) by simp
  have h: "heap_inv s"
    unfolding assms(1) by (intro heap_inv_run heap_inv_initial)
  from assms(2) have "tasks s ! n \<in> set (tasks s)" by simp
  with h have "task_pc (tasks s ! n) < length (pcs s)" by (simp add: heap_inv_iff)
  with h have c: "pcRef s \<noteq> Some (task_pc (tasks s ! n)) \<longrightarrow> closed s (task_pc (tasks s ! n))"
    by (auto simp add: heap_inv_iff closed_def)
  from settle_frame [of "tasks s ! n" oc ?s0] st c needs_peer_creates [of s m cl]
  show ?thesis by simp
qed

theorem stale_settlement_confined_witness:
  "pcRef (step (Settle 0 (Resolved ''o''))
       (run [GotLocalStream [7, 8], PressButton, Recv Ready, PressButton, PressButton] initial))
     = None
   \<and> closed (run [GotLocalStream [7, 8], PressButton, Recv Ready, PressButton, PressButton]
               initial) 0
   \<and> pcRef (step (Recv (Answer (Wellformed ''old'')))
       (run [GotLocalStream [7, 8], PressButton, Recv Ready, PressButton, PressButton] initial))
     = Some 1"
proof -
  let ?es = "[GotLocalStream [7, 8], PressButton, Recv Ready, PressButton, PressButton]"
  let ?s = "run ?es initial"
  let ?cl = "\<lparr>c_roomId = ''test-room'', c_localStream = Some [7, 8]\<rparr>"
  have a: "?s = run ?es initial" by (rule refl)
  have b: "0 < length (tasks ?s)" by code_simp
  have c: "pcRef ?s = None" by code_simp
  have d: "task_pc (tasks ?s ! 0) = 0" by code_simp
  have e: "socketRef ?s = Some ?cl" by code_simp
  have f: "needs_peer (Answer (Wellformed ''old''))" by simp
  have g: "length (pcs ?s) = 1" by code_simp
  from stale_settlement_confined
         [OF a b, of "Resolved ''o''" ?cl "Answer (Wellformed ''old'')"]
  have "pcRef (step (Settle 0 (Resolved ''o'')) ?s) = pcRef ?s"
    and "pcRef ?s \<noteq> Some (task_pc (tasks ?s ! 0)) \<longrightarrow> closed ?s (task_pc (tasks ?s ! 0))"
    and "socketRef ?s = Some ?cl \<and> pcRef ?s = None \<and> needs_peer (Answer (Wellformed ''old''))
           \<longrightarrow> pcRef (step (Recv (Answer (Wellformed ''old''))) ?s) = Some (length (pcs ?s))"
    by blast+
  with c d e f g show ?thesis by (simp only: simp_thms option.distinct)
qed

text \<open>
  C3, as stated, fails: nothing remembers that an offer or an answer was sent. Two
  \<^verbatim>\<open>ready\<close> messages within one attempt give two offers, and two \<^verbatim>\<open>offer\<close>
  messages two answers.
\<close>

theorem two_ready_two_offers:
  "outbox (run [GotLocalStream [7, 8], PressButton,
                Recv Ready, Settle 0 (Resolved ''o1''), Settle 0 (Resolved []),
                Recv Ready, Settle 0 (Resolved ''o2''), Settle 0 (Resolved [])] initial)
     = [Join ''test-room'', OfferOut ''test-room'' ''o1'', OfferOut ''test-room'' ''o2'']
   \<and> outbox (run [GotLocalStream [7, 8], PressButton,
                Recv (Offer (Wellformed ''o1'')),
                Settle 0 (Resolved []), Settle 0 (Resolved ''a1''), Settle 0 (Resolved []),
                Recv (Offer (Wellformed ''o2'')),
                Settle 0 (Resolved []), Settle 0 (Resolved ''a2''), Settle 0 (Resolved [])] initial)
     = [Join ''test-room'', AnswerOut ''test-room'' ''a1'', AnswerOut ''test-room'' ''a2'']"
  by code_simp

text \<open>
  C3, amended. Each delivery of \<^verbatim>\<open>ready\<close> starts one handler, and a handler emits at
  most once: over any run, the offers emitted plus the \<^verbatim>\<open>ready\<close> handlers still
  suspended grow by at most the number of \<^verbatim>\<open>ready\<close> messages handled, and likewise
  the answers with the well-formed \<^verbatim>\<open>offer\<close> messages handled. The handler emits its
  offer (answer) at the moment its last awaited call, \<^verbatim>\<open>setLocalDescription\<close>,
  resolves, and only if there is a socket at that moment. When all its engine calls
  resolve and no other event comes in between, a delivery of \<^verbatim>\<open>ready\<close> emits exactly
  one offer and a delivery of \<^verbatim>\<open>offer\<close> exactly one answer, with the room identifier
  of the handlers' closure. A repeated delivery within one attempt is not suppressed:
  it emits again.
\<close>

theorem one_offer_per_ready:
  "offers_sent (run es s) + ready_pending (run es s)
     \<le> offers_sent s + ready_pending s + ready_delivered es s
   \<and> answers_sent (run es s) + offer_pending (run es s)
     \<le> answers_sent s + offer_pending s + offers_delivered es s
   \<and> (n < length (tasks s) \<and> tasks s ! n = ReadySetLocal rid i offer \<longrightarrow>
        outbox (step (Settle n (Resolved v)) s)
          = outbox s @ (if socketRef s \<noteq> None then [OfferOut rid offer] else []))
   \<and> (n < length (tasks s) \<and> tasks s ! n = OfferSetLocal rid i answer \<longrightarrow>
        outbox (step (Settle n (Resolved v)) s)
          = outbox s @ (if socketRef s \<noteq> None then [AnswerOut rid answer] else []))
   \<and> (socketRef s = Some cl \<and> k = length (tasks s) \<longrightarrow>
        outbox (run [Recv Ready, Settle k (Resolved offer), Settle k (Resolved v)] s)
          = outbox s @ [OfferOut (c_roomId cl) offer]
        \<and> outbox (run [Recv (Offer (Wellformed d)), Settle k (Resolved v1),
                        Settle k (Resolved answer), Settle k (Resolved v2)] s)
          = outbox s @ [AnswerOut (c_roomId cl) answer])"
proof -
  have a: "n < length (tasks s) \<and> tasks s ! n = ReadySetLocal rid i offer \<longrightarrow>
        outbox (step (Settle n (Resolved v)) s)
          = outbox s @ (if socketRef s \<noteq> None then [OfferOut rid offer] else [])"
    by (simp add: outbox_emit)
  have b: "n < length (tasks s) \<and> tasks s ! n = OfferSetLocal rid i answer \<longrightarrow>
        outbox (step (Settle n (Resolved v)) s)
          = outbox s @ (if socketRef s \<noteq> None then [AnswerOut rid answer] else [])"
    by (simp add: outbox_emit)
  have c: "socketRef s = Some cl \<and> k = length (tasks s) \<longrightarrow>
        outbox (run [Recv Ready, Settle k (Resolved offer), Settle k (Resolved v)] s)
          = outbox s @ [OfferOut (c_roomId cl) offer]
        \<and> outbox (run [Recv (Offer (Wellformed d)), Settle k (Resolved v1),
                        Settle k (Resolved answer), Settle k (Resolved v2)] s)
          = outbox s @ [AnswerOut (c_roomId cl) answer]"
    by (simp add: ensurePeer_def await_def call_def emit_def addTracks_def Let_def
             split: option.splits)
  from run_offers [of es s] run_answers [of es s] a b c show ?thesis by blast
qed

theorem one_offer_per_ready_witness:
  "offers_sent (run [Recv Ready, Settle 0 (Resolved ''o1''), Settle 0 (Resolved []),
                     Recv Ready, Recv Ready, Unmount, Settle 1 (Resolved ''o3''),
                     Settle 1 (Resolved [])]
                  (run [GotLocalStream [7, 8], PressButton] initial)) \<le> 3
   \<and> outbox (step (Settle 0 (Resolved []))
               (run [GotLocalStream [7, 8], PressButton, Recv Ready, Settle 0 (Resolved ''o'')]
                  initial))
       = [Join ''test-room'', OfferOut ''test-room'' ''o'']
   \<and> outbox (step (Settle 0 (Resolved []))
               (run [GotLocalStream [7, 8], PressButton, Recv (Offer (Wellformed ''o'')),
                     Settle 0 (Resolved []), Settle 0 (Resolved ''a'')] initial))
       = [Join ''test-room'', AnswerOut ''test-room'' ''a'']
   \<and> outbox (run [Recv Ready, Settle 0 (Resolved ''o''), Settle 0 (Resolved [])]
               (run [GotLocalStream [7, 8], PressButton] initial))
       = [Join ''test-room'', OfferOut ''test-room'' ''o'']"
proof -
  let ?s = "run [GotLocalStream [7, 8], PressButton] initial"
  let ?es = "[Recv Ready, Settle 0 (Resolved ''o1''), Settle 0 (Resolved []),
              Recv Ready, Recv Ready, Unmount, Settle 1 (Resolved ''o3''),
              Settle 1 (Resolved [])]"
  let ?s1 = "run [GotLocalStream [7, 8], PressButton, Recv Ready, Settle 0 (Resolved ''o'')]
               initial"
  let ?s2 = "run [GotLocalStream [7, 8], PressButton, Recv (Offer (Wellformed ''o'')),
                  Settle 0 (Resolved []), Settle 0 (Resolved ''a'')] initial"
  let ?cl = "\<lparr>c_roomId = ''test-room'', c_localStream = Some [7, 8]\<rparr>"
  have a: "offers_sent ?s + ready_pending ?s + ready_delivered ?es ?s = 3" by code_simp
  from one_offer_per_ready [where es = ?es and s = ?s]
  have "offers_sent (run ?es ?s) + ready_pending (run ?es ?s)
          \<le> offers_sent ?s + ready_pending ?s + ready_delivered ?es ?s"
    by blast
  then have "offers_sent (run ?es ?s) + ready_pending (run ?es ?s) \<le> 3"
    by (simp only: a)
  then have 1: "offers_sent (run ?es ?s) \<le> 3" by (rule add_leD1)
  have b: "0 < length (tasks ?s1) \<and> tasks ?s1 ! 0 = ReadySetLocal ''test-room'' 0 ''o''"
    by code_simp
  have b': "outbox ?s1 @ (if socketRef ?s1 \<noteq> None then [OfferOut ''test-room'' ''o''] else [])
              = [Join ''test-room'', OfferOut ''test-room'' ''o'']"
    by code_simp
  from one_offer_per_ready [where s = ?s1 and n = 0 and rid = "''test-room''" and i = 0
                                  and offer = "''o''" and v = "[]"] b
  have "outbox (step (Settle 0 (Resolved [])) ?s1)
          = outbox ?s1 @ (if socketRef ?s1 \<noteq> None then [OfferOut ''test-room'' ''o''] else [])"
    by blast
  with b' have 2: "outbox (step (Settle 0 (Resolved [])) ?s1)
                     = [Join ''test-room'', OfferOut ''test-room'' ''o'']"
    by (simp only:)
  have c: "0 < length (tasks ?s2) \<and> tasks ?s2 ! 0 = OfferSetLocal ''test-room'' 0 ''a''"
    by code_simp
  have c': "outbox ?s2 @ (if socketRef ?s2 \<noteq> None then [AnswerOut ''test-room'' ''a''] else [])
              = [Join ''test-room'', AnswerOut ''test-room'' ''a'']"
    by code_simp
  from one_offer_per_ready [where s = ?s2 and n = 0 and rid = "''test-room''" and i = 0
                                  and answer = "''a''" and v = "[]"] c
  have "outbox (step (Settle 0 (Resolved [])) ?s2)
          = outbox ?s2 @ (if socketRef ?s2 \<noteq> None then [AnswerOut ''test-room'' ''a''] else [])"
    by blast
  with c' have 3: "outbox (step (Settle 0 (Resolved [])) ?s2)
                     = [Join ''test-room'', AnswerOut ''test-room'' ''a'']"
    by (simp only:)
  have d: "socketRef ?s = Some ?cl \<and> 0 = length (tasks ?s)" by code_simp
  have d': "outbox ?s @ [OfferOut (c_roomId ?cl) ''o'']
              = [Join ''test-room'', OfferOut ''test-room'' ''o'']"
    by code_simp
  from one_offer_per_ready [where s = ?s and cl = ?cl and k = 0 and offer = "''o''"
                                  and v = "[]"] d
  have "outbox (run [Recv Ready, Settle 0 (Resolved ''o''), Settle 0 (Resolved [])] ?s)
          = outbox ?s @ [OfferOut (c_roomId ?cl) ''o'']"
    by blast
  with d' have 4: "outbox (run [Recv Ready, Settle 0 (Resolved ''o''), Settle 0 (Resolved [])] ?s)
                     = [Join ''test-room'', OfferOut ''test-room'' ''o'']"
    by (simp only:)
  from 1 2 3 4 show ?thesis by blast
qed

subsection \<open>Joining again after a leave\<close>

text \<open>
  C8. \<^verbatim>\<open>endCall\<close> does clear \<open>pcRef\<close>, but it keeps the socket, and
  \<^verbatim>\<open>connectSocket\<close> registers handlers only when there is no socket. The handlers of
  the first join stay, with the room identifier of that render. Join \<^verbatim>\<open>test-room\<close>,
  leave, change the room to \<^verbatim>\<open>b\<close>, join: the \<^verbatim>\<open>join\<close> message names \<^verbatim>\<open>b\<close>, and
  the offer that answers \<^verbatim>\<open>ready\<close> is sent to \<^verbatim>\<open>test-room\<close>.
\<close>

theorem stale_room_after_rejoin:
  "outbox (run [GotLocalStream [7, 8], PressButton, PressButton, ChangeRoomId ''b'',
                PressButton, Recv Ready, Settle 0 (Resolved ''o''), Settle 0 (Resolved [])]
             initial)
     = [Join ''test-room'', Leave ''test-room'', Join ''b'', OfferOut ''test-room'' ''o'']"
  by code_simp

end
